theory Spec2Isabelle
  imports Main "HOL-Library.Word"
begin

unbundle bit_operations_syntax

section \<open>The machine state of main.c\<close>

text \<open>
  The program touches one global variable and a handful of memory-mapped registers of the
  ATmega32U4. \<open>count_ms\<close> is a \<open>volatile unsigned int\<close>, 16 bits wide with avr-gcc; the
  I/O registers are 8 bits wide, except the 16-bit pair registers \<open>OCR1A\<close> and \<open>TCNT1\<close>.
  \<open>SREG_I\<close> is the global interrupt enable flag that \<open>sei()\<close> sets.
\<close>

record mcu =
  count_ms :: "16 word"
  CLKPR :: "8 word"
  SREG_I :: bool
  DDRD :: "8 word"
  PORTD :: "8 word"
  TCCR1A :: "8 word"
  TCCR1B :: "8 word"
  TIMSK1 :: "8 word"
  OCR1A :: "16 word"
  TCNT1 :: "16 word"

text \<open>
  Bit numbers. The source takes them from \<open>avr/io.h\<close>; its own comments list the layout
  of the two timer registers, most significant bit first:
  \<open>TCCR1B [7:0] = {ICNC1, ICES1, Reserved, WGM13, WGM12, CS12, CS11, CS10}\<close> and
  \<open>TIMSK1 [7:0] = {Reserved, Reserved, ICIE1, Reserved, OCIE1C, OCIE1B, OCIE1A, TOIE1}\<close>.
  \<open>PD6\<close> is pin 6 of port D.
\<close>

definition PD6 :: nat where "PD6 = 6"
definition CS10 :: nat where "CS10 = 0"
definition CS11 :: nat where "CS11 = 1"
definition CS12 :: nat where "CS12 = 2"
definition WGM12 :: nat where "WGM12 = 3"
definition WGM13 :: nat where "WGM13 = 4"
definition WGM10 :: nat where "WGM10 = 0"
definition WGM11 :: nat where "WGM11 = 1"
definition OCIE1A :: nat where "OCIE1A = 1"

definition CPU_8MHz :: "8 word" where "CPU_8MHz = 0x01"

text \<open>\<open>#define CPU_PRESCALE(n) (CLKPR = 0x80, CLKPR = (n))\<close>: two writes in sequence.\<close>

definition CPU_PRESCALE :: "8 word \<Rightarrow> mcu \<Rightarrow> mcu" where
  "CPU_PRESCALE n s = (s\<lparr>CLKPR := 0x80\<rparr>)\<lparr>CLKPR := n\<rparr>"

section \<open>The interrupt service routine\<close>

text \<open>\<open>ISR(TIMER1_COMPA_vect){ count_ms ++; }\<close>. The addition on \<open>16 word\<close> wraps.\<close>

definition ISR_TIMER1_COMPA :: "mcu \<Rightarrow> mcu" where
  "ISR_TIMER1_COMPA s = s\<lparr>count_ms := count_ms s + 1\<rparr>"

section \<open>Counter_init\<close>

text \<open>
  The five statements of \<open>Counter_init\<close>, in order. The first three are read-modify-write
  (\<open>|=\<close>); the last two are plain stores.
\<close>

definition Counter_init :: "mcu \<Rightarrow> mcu" where
  "Counter_init s =
    (let s1 = s\<lparr>TCCR1A := TCCR1A s OR 0x00\<rparr>;
         s2 = s1\<lparr>TCCR1B := TCCR1B s1 OR (push_bit CS11 1 OR push_bit WGM12 1)\<rparr>;
         s3 = s2\<lparr>TIMSK1 := TIMSK1 s2 OR push_bit OCIE1A 1\<rparr>;
         s4 = s3\<lparr>OCR1A := 1000\<rparr>
     in s4\<lparr>TCNT1 := 0\<rparr>)"

section \<open>The blink loop\<close>

text \<open>
  The body of \<open>while(1)\<close> is two \<open>if\<close> statements in sequence (the second is not an
  \<open>else\<close>). Each reads the volatile \<open>count_ms\<close> afresh. \<open>!PORTD\<close> is true exactly when
  the whole register reads 0. In \<open>PORTD &= ~(1<<PD6)\<close> the mask is computed at \<open>int\<close>
  width and the result is stored back into the 8-bit register, which is the 8-bit
  \<open>AND NOT\<close>.
\<close>

definition set_cond :: "mcu \<Rightarrow> bool" where
  "set_cond s \<longleftrightarrow> count_ms s = 999 \<and> PORTD s = 0"

definition clear_cond :: "mcu \<Rightarrow> bool" where
  "clear_cond s \<longleftrightarrow> count_ms s = 999"

definition loop_if1 :: "mcu \<Rightarrow> mcu" where
  "loop_if1 s =
    (if set_cond s
     then (s\<lparr>PORTD := PORTD s OR push_bit PD6 1\<rparr>)\<lparr>count_ms := 0\<rparr>
     else s)"

definition loop_if2 :: "mcu \<Rightarrow> mcu" where
  "loop_if2 s =
    (if clear_cond s
     then (s\<lparr>PORTD := PORTD s AND NOT (push_bit PD6 1)\<rparr>)\<lparr>count_ms := 0\<rparr>
     else s)"

definition loop_body :: "mcu \<Rightarrow> mcu" where
  "loop_body s = loop_if2 (loop_if1 s)"

text \<open>The statements of \<open>main\<close> before the loop.\<close>

definition sei :: "mcu \<Rightarrow> mcu" where
  "sei s = s\<lparr>SREG_I := True\<rparr>"

definition main_prologue :: "mcu \<Rightarrow> mcu" where
  "main_prologue s =
    (let s1 = CPU_PRESCALE CPU_8MHz s;
         s2 = Counter_init s1;
         s3 = sei s2
     in s3\<lparr>DDRD := DDRD s3 OR push_bit PD6 1\<rparr>)"

text \<open>The level of the LED pin: bit \<open>PD6\<close> of \<open>PORTD\<close>.\<close>

definition pin :: "mcu \<Rightarrow> bool" where
  "pin s = bit (PORTD s) PD6"

section \<open>Decoding the timer configuration\<close>

text \<open>
  The source's comment in \<open>Counter_init\<close> tabulates the clock-select field
  \<open>CS12 CS11 CS10\<close>: 000 clock off, 001 CPU/1, 010 CPU/8, 011 CPU/64, 100 CPU/256,
  101 CPU/1024, 110 and 111 external clock on falling and rising edge.
\<close>

datatype clock_source = Clock_off | CPU_div nat | Ext_falling | Ext_rising

fun clock_select :: "bool \<times> bool \<times> bool \<Rightarrow> clock_source" where
  "clock_select (False, False, False) = Clock_off"
| "clock_select (False, False, True) = CPU_div 1"
| "clock_select (False, True, False) = CPU_div 8"
| "clock_select (False, True, True) = CPU_div 64"
| "clock_select (True, False, False) = CPU_div 256"
| "clock_select (True, False, True) = CPU_div 1024"
| "clock_select (True, True, False) = Ext_falling"
| "clock_select (True, True, True) = Ext_rising"

text \<open>
  The comment above \<open>Counter_init\<close> names the two CTC modes by
  \<open>WGM13 WGM12 WGM11 WGM10\<close>: 0100 compares against \<open>OCR1A\<close>, 1100 against \<open>ICR1\<close>.
  \<open>WGM13\<close> and \<open>WGM12\<close> live in \<open>TCCR1B\<close>, \<open>WGM11\<close> and \<open>WGM10\<close> in \<open>TCCR1A\<close>.
\<close>

datatype waveform = CTC_OCR1A | CTC_ICR1 | Other_mode

fun waveform_mode :: "bool \<times> bool \<times> bool \<times> bool \<Rightarrow> waveform" where
  "waveform_mode (False, True, False, False) = CTC_OCR1A"
| "waveform_mode (True, True, False, False) = CTC_ICR1"
| "waveform_mode _ = Other_mode"

definition CS1 :: "mcu \<Rightarrow> bool \<times> bool \<times> bool" where
  "CS1 s = (bit (TCCR1B s) CS12, bit (TCCR1B s) CS11, bit (TCCR1B s) CS10)"

definition WGM1 :: "mcu \<Rightarrow> bool \<times> bool \<times> bool \<times> bool" where
  "WGM1 s = (bit (TCCR1B s) WGM13, bit (TCCR1B s) WGM12, bit (TCCR1A s) WGM11, bit (TCCR1A s) WGM10)"

text \<open>
  The source's rule for the compare value, from the comment above the store to \<open>OCR1A\<close>:
  \<open>OCR1A = (CPU_clock speed/TCCR_clock speed)-1\<close>. Read the other way round, a compare
  value \<open>v\<close> gives one compare match every \<open>v + 1\<close> ticks of the timer clock, because the
  count runs through \<open>0, \<dots>, v\<close> before it is cleared.
\<close>

definition OCR1A_for :: "nat \<Rightarrow> nat \<Rightarrow> nat" where
  "OCR1A_for clock_hz rate_hz = clock_hz div rate_hz - 1"

definition ticks_per_match :: "nat \<Rightarrow> nat" where
  "ticks_per_match v = v + 1"

definition F_CPU :: nat where "F_CPU = 8000000"

section \<open>The loop body as the specification words it\<close>

text \<open>
  The specification describes one pass as a two-branch decision: if the counter is 999
  and the whole port register reads zero, assert the bit and reset the counter; else if
  the counter is 999, deassert the bit and reset the counter; otherwise nothing.
\<close>

definition blink_spec :: "mcu \<Rightarrow> mcu" where
  "blink_spec s =
    (if count_ms s = 999 \<and> PORTD s = 0
     then s\<lparr>PORTD := PORTD s OR push_bit PD6 1, count_ms := 0\<rparr>
     else if count_ms s = 999
     then s\<lparr>PORTD := PORTD s AND NOT (push_bit PD6 1), count_ms := 0\<rparr>
     else s)"

section \<open>Executions, statement by statement\<close>

text \<open>
  \<open>main\<close> enables interrupts with \<open>sei()\<close> before the loop and never disables them, so the
  handler can run between any two statements of the loop, in particular between the two
  \<open>if\<close> statements of one pass. The position of the main program is the line of
  \<open>main.c\<close> it executes next: the tests at lines 75 and 79, the stores to \<open>PORTD\<close> at lines
  76 and 80, the resets of \<open>count_ms\<close> at lines 77 and 81. After line 81, or after a test
  at line 79 that fails, the \<open>while(1)\<close> goes back to line 75; there is no exit.

  The handler writes \<open>count_ms\<close> only, so a handler run in the middle of a test or of a
  store to \<open>PORTD\<close> has the effect of one just before or just after that statement.
  Accesses to the 16-bit \<open>count_ms\<close> are taken as single accesses, as in C.
\<close>

datatype pc = L75 | L76 | L77 | L79 | L80 | L81

fun main_stmt :: "pc \<Rightarrow> mcu \<Rightarrow> pc \<times> mcu" where
  "main_stmt L75 s = (if set_cond s then L76 else L79, s)"
| "main_stmt L76 s = (L77, s\<lparr>PORTD := PORTD s OR push_bit PD6 1\<rparr>)"
| "main_stmt L77 s = (L79, s\<lparr>count_ms := 0\<rparr>)"
| "main_stmt L79 s = (if clear_cond s then L80 else L75, s)"
| "main_stmt L80 s = (L81, s\<lparr>PORTD := PORTD s AND NOT (push_bit PD6 1)\<rparr>)"
| "main_stmt L81 s = (L75, s\<lparr>count_ms := 0\<rparr>)"

text \<open>
  An execution is a sequence of events: \<open>Irq\<close>, the compare-match interrupt, which runs the
  handler when interrupts are enabled, and \<open>Main\<close>, the main program executing its next
  statement.
\<close>

datatype micro = Irq | Main

fun small_step :: "micro \<Rightarrow> pc \<times> mcu \<Rightarrow> pc \<times> mcu" where
  "small_step Irq (p, s) = (p, if SREG_I s then ISR_TIMER1_COMPA s else s)"
| "small_step Main (p, s) = main_stmt p s"

primrec exec :: "micro list \<Rightarrow> pc \<times> mcu \<Rightarrow> pc \<times> mcu" where
  "exec [] c = c"
| "exec (e # es) c = exec es (small_step e c)"

text \<open>The number of events of an execution at which the pin changes level.\<close>

primrec flips :: "micro list \<Rightarrow> pc \<times> mcu \<Rightarrow> nat" where
  "flips [] c = 0"
| "flips (e # es) c =
     (if pin (snd (small_step e c)) \<noteq> pin (snd c) then 1 else 0) + flips es (small_step e c)"

text \<open>The number of interrupts in an execution.\<close>

definition irqs :: "micro list \<Rightarrow> nat" where
  "irqs ms = length (filter (\<lambda>e. e = Irq) ms)"

text \<open>
  \<open>aligned n\<close>: \<open>n\<close> interrupts, each arriving at line 75 and followed by the two tests of
  one pass. \<open>lit_cycle\<close> and \<open>dark_cycle\<close> are two ways for 999 interrupts to arrive. In
  both, the first 998 are aligned. In \<open>lit_cycle\<close> the last one also arrives at line 75 and
  the pass after it runs lines 75, 76, 77, 79. In \<open>dark_cycle\<close> the last one arrives
  after the test at line 75 and before the test at line 79, and the pass goes on with
  lines 79, 80, 81.
\<close>

definition aligned :: "nat \<Rightarrow> micro list" where
  "aligned n = concat (replicate n [Irq, Main, Main])"

definition lit_cycle :: "micro list" where
  "lit_cycle = aligned 998 @ [Irq, Main, Main, Main, Main]"

definition dark_cycle :: "micro list" where
  "dark_cycle = aligned 998 @ [Main, Irq, Main, Main, Main]"

section \<open>Executions, pass by pass\<close>

text \<open>
  The coarser view in which an event is a run of the handler or one whole pass of the
  loop body, with the handler running only between passes. These are some of the
  executions of the program, not all of them; the bound on the counter (C7) is stated in
  this step model. \<open>refine\<close> gives the statements of such an execution: a pass is four
  statements when it starts with the counter at 999 and two, the two tests, otherwise.
\<close>

datatype event = Tick | Loop

fun step :: "event \<Rightarrow> mcu \<Rightarrow> mcu" where
  "step Tick s = ISR_TIMER1_COMPA s"
| "step Loop s = loop_body s"

primrec run :: "event list \<Rightarrow> mcu \<Rightarrow> mcu" where
  "run [] s = s"
| "run (e # es) s = run es (step e s)"

definition pass_stmts :: "mcu \<Rightarrow> micro list" where
  "pass_stmts s = (if count_ms s = 999 then [Main, Main, Main, Main] else [Main, Main])"

primrec refine :: "event list \<Rightarrow> mcu \<Rightarrow> micro list" where
  "refine [] s = []"
| "refine (e # es) s =
     (case e of Tick \<Rightarrow> [Irq] | Loop \<Rightarrow> pass_stmts s) @ refine es (step e s)"

text \<open>No missed reset: no two ticks without a pass of the loop between them.\<close>

fun no_missed :: "event list \<Rightarrow> bool" where
  "no_missed (Tick # Tick # es) = False"
| "no_missed (e # es) = no_missed es"
| "no_missed [] = True"

section \<open>Concrete states\<close>

text \<open>
  \<open>power_on\<close>: \<open>count_ms\<close> as initialised by its declaration and every register reading 0.
  \<open>main_prologue power_on\<close> is then the state in which the loop is entered.
\<close>

definition power_on :: mcu where
  "power_on = \<lparr>count_ms = 0, CLKPR = 0, SREG_I = False, DDRD = 0, PORTD = 0,
     TCCR1A = 0, TCCR1B = 0, TIMSK1 = 0, OCR1A = 0, TCNT1 = 0\<rparr>"

section \<open>Single steps\<close>

lemma PD6_mask_bit: "bit (push_bit PD6 1 :: 8 word) i \<longleftrightarrow> i = PD6"
  by (auto simp add: bit_exp_iff) (simp add: PD6_def)

lemma or_mask_other_bits:
  "i \<noteq> PD6 \<Longrightarrow> bit (p OR push_bit PD6 1 :: 8 word) i = bit p i"
  using PD6_mask_bit [of i] by (auto simp add: bit_or_iff simp del: push_bit_of_1)

lemma and_not_mask_other_bits:
  "i \<noteq> PD6 \<Longrightarrow> bit (p AND NOT (push_bit PD6 1) :: 8 word) i = bit p i"
  using PD6_mask_bit [of i]
  by (auto simp add: bit_and_iff bit_not_iff simp del: push_bit_of_1 dest: bit_imp_le_length)

lemma or_mask_bit: "bit (p OR push_bit PD6 1 :: 8 word) PD6"
  using PD6_mask_bit [of PD6] by (simp add: bit_or_iff del: push_bit_of_1)

lemma and_not_mask_bit: "\<not> bit (p AND NOT (push_bit PD6 1) :: 8 word) PD6"
  using PD6_mask_bit [of PD6] by (simp add: bit_and_iff bit_not_iff del: push_bit_of_1)

lemma others_or_mask:
  "(p OR push_bit PD6 1) AND NOT (push_bit PD6 1) = p AND NOT (push_bit PD6 1 :: 8 word)"
  by (rule bit_word_eqI) (auto simp add: bit_and_iff bit_or_iff bit_not_iff)

lemma others_and_not_mask:
  "(p AND NOT (push_bit PD6 1)) AND NOT (push_bit PD6 1) = p AND NOT (push_bit PD6 1 :: 8 word)"
  by (rule bit_word_eqI) (auto simp add: bit_and_iff bit_not_iff)

lemma only_PD6_high:
  fixes p :: "8 word"
  assumes "p AND NOT (push_bit PD6 1) = 0" and "p \<noteq> 0"
  shows "bit p PD6"
proof (rule ccontr)
  assume low: "\<not> bit p PD6"
  have "p = 0"
  proof (rule bit_word_eqI)
    fix i
    assume "i < LENGTH(8)"
    show "bit p i = bit (0 :: 8 word) i"
    proof (cases "i = PD6")
      case True
      then show ?thesis using low by simp
    next
      case False
      then have "bit p i = bit (p AND NOT (push_bit PD6 1)) i"
        by (rule and_not_mask_other_bits [symmetric])
      then show ?thesis by (simp only: assms(1))
    qed
  qed
  then show False using assms(2) by simp
qed

lemma loop_body_cases:
  "loop_body s =
    (if count_ms s = 999 \<and> PORTD s = 0
     then s\<lparr>PORTD := PORTD s OR push_bit PD6 1, count_ms := 0\<rparr>
     else if count_ms s = 999
     then s\<lparr>PORTD := PORTD s AND NOT (push_bit PD6 1), count_ms := 0\<rparr>
     else s)"
  by (simp add: loop_body_def loop_if1_def loop_if2_def set_cond_def clear_cond_def)

lemma loop_body_idle: "count_ms s \<noteq> 999 \<Longrightarrow> loop_body s = s"
  by (simp add: loop_body_cases)

lemma loop_body_count: "count_ms (loop_body s) \<noteq> 999"
  by (simp add: loop_body_cases)

lemma pin_ISR: "pin (ISR_TIMER1_COMPA s) = pin s"
  by (simp add: pin_def ISR_TIMER1_COMPA_def)

lemma pin_low: "PORTD s = 0 \<Longrightarrow> \<not> pin s"
  by (simp add: pin_def)

lemma pin_high: "PORTD s = push_bit PD6 1 \<Longrightarrow> pin s"
  using PD6_mask_bit [of PD6] by (simp add: pin_def del: push_bit_of_1)

lemma others_step:
  "PORTD (step e s) AND NOT (push_bit PD6 1) = PORTD s AND NOT (push_bit PD6 1)"
proof (cases e)
  case Tick
  then show ?thesis by (simp add: ISR_TIMER1_COMPA_def)
next
  case Loop
  show ?thesis
    unfolding Loop step.simps loop_body_cases
    using others_or_mask [of "PORTD s"] others_and_not_mask [of "PORTD s"]
    by (simp del: push_bit_of_1)
qed

lemma pin_step_blocked:
  assumes "PORTD s AND NOT (push_bit PD6 1) \<noteq> 0" and "pin (step e s)"
  shows "pin s"
proof (cases e)
  case Tick
  then show ?thesis using assms(2) by (simp add: pin_ISR)
next
  case Loop
  have nz: "PORTD s \<noteq> 0" using assms(1) by auto
  show ?thesis
  proof (cases "count_ms s = 999")
    case True
    then have "loop_body s = s\<lparr>PORTD := PORTD s AND NOT (push_bit PD6 1), count_ms := 0\<rparr>"
      using nz by (simp add: loop_body_cases)
    then have "\<not> pin (step e s)"
      using and_not_mask_bit [of "PORTD s"] by (simp add: Loop pin_def del: push_bit_of_1)
    then show ?thesis using assms(2) by simp
  next
    case False
    then show ?thesis using assms(2) by (simp add: Loop loop_body_idle)
  qed
qed

lemma count_succ_below:
  fixes c :: "16 word"
  assumes "unat c + 1 < 999"
  shows "c + 1 \<noteq> 999"
proof
  assume "c + 1 = 999"
  then have "unat (c + 1) = 999" by simp
  moreover have "unat (c + 1) = unat c + 1"
    using assms by (simp add: unat_word_ariths)
  ultimately show False using assms by simp
qed

section \<open>Executions, statement by statement\<close>

lemma exec_append: "exec (es @ fs) c = exec fs (exec es c)"
  by (induction es arbitrary: c) simp_all

lemma flips_append: "flips (es @ fs) c = flips es c + flips fs (exec es c)"
  by (induction es arbitrary: c) simp_all

lemma irqs_append: "irqs (es @ fs) = irqs es + irqs fs"
  by (simp add: irqs_def)

lemma aligned_Suc: "aligned (Suc n) = [Irq, Main, Main] @ aligned n"
  by (simp add: aligned_def)

lemma irqs_aligned: "irqs (aligned n) = n"
  by (induction n) (simp_all add: aligned_def irqs_def)

lemma irqs_lit_cycle: "irqs lit_cycle = 999"
  by (simp add: lit_cycle_def irqs_append irqs_aligned) (simp add: irqs_def)

lemma irqs_dark_cycle: "irqs dark_cycle = 999"
  by (simp add: dark_cycle_def irqs_append irqs_aligned) (simp add: irqs_def)

text \<open>The statements of one pass, run without interruption, are \<open>loop_body\<close>.\<close>

lemma exec_pass: "exec (pass_stmts s) (L75, s) = (L75, loop_body s)"
  by (simp add: pass_stmts_def loop_body_cases set_cond_def clear_cond_def)

lemma SREG_I_step: "SREG_I (step e s) = SREG_I s"
  by (cases e) (simp_all add: ISR_TIMER1_COMPA_def loop_body_cases)

text \<open>
  Every pass-by-pass execution is an execution of the program: its statements, run from
  line 75, end at line 75 in the state \<open>run\<close> computes, with as many interrupts as ticks.
\<close>

lemma exec_refine: "SREG_I s \<Longrightarrow> exec (refine es s) (L75, s) = (L75, run es s)"
proof (induction es arbitrary: s)
  case Nil
  show ?case by simp
next
  case (Cons e es)
  have en: "SREG_I (step e s)" using Cons.prems by (simp only: SREG_I_step)
  show ?case
  proof (cases e)
    case Tick
    then show ?thesis using Cons.IH [OF en] Cons.prems by simp
  next
    case Loop
    then show ?thesis using Cons.IH [OF en] by (simp add: exec_append exec_pass)
  qed
qed

lemma irqs_refine: "irqs (refine es s) = length (filter (\<lambda>e. e = Tick) es)"
proof (induction es arbitrary: s)
  case Nil
  show ?case by (simp add: irqs_def)
next
  case (Cons e es)
  show ?case
    using Cons.IH [of "step e s"]
    by (cases e) (simp_all add: irqs_append, simp_all add: irqs_def pass_stmts_def)
qed

lemma idle_pass:
  assumes "count_ms s \<noteq> 999"
  shows "exec [Main, Main] (L75, s) = (L75, s)" and "flips [Main, Main] (L75, s) = 0"
  using assms by (simp_all add: set_cond_def clear_cond_def)

lemma aligned_below:
  "unat (count_ms s) + n < 999 \<Longrightarrow> SREG_I s \<Longrightarrow>
     exec (aligned n) (L75, s) = (L75, s\<lparr>count_ms := count_ms s + of_nat n\<rparr>) \<and>
     flips (aligned n) (L75, s) = 0"
proof (induction n arbitrary: s)
  case 0
  show ?case by (simp add: aligned_def)
next
  case (Suc n)
  let ?s1 = "ISR_TIMER1_COMPA s"
  have b: "unat (count_ms s) + 1 < 999" using Suc.prems(1) by simp
  have c1: "count_ms ?s1 = count_ms s + 1" by (simp add: ISR_TIMER1_COMPA_def)
  have ne: "count_ms ?s1 \<noteq> 999"
    using b c1 count_succ_below [of "count_ms s"] by simp
  have u1: "unat (count_ms ?s1) + n < 999"
    using Suc.prems(1) by (simp add: ISR_TIMER1_COMPA_def unat_word_ariths)
  have en: "SREG_I ?s1" using Suc.prems(2) by (simp add: ISR_TIMER1_COMPA_def)
  note ih = Suc.IH [OF u1 en]
  have head: "exec [Irq, Main, Main] (L75, s) = (L75, ?s1)"
    using Suc.prems(2) idle_pass(1) [OF ne] by simp
  have "flips [Irq, Main, Main] (L75, s) = flips [Main, Main] (L75, ?s1)"
    using Suc.prems(2) by (simp add: pin_ISR)
  then have fh: "flips [Irq, Main, Main] (L75, s) = 0"
    by (simp only: idle_pass(2) [OF ne])
  have "exec (aligned (Suc n)) (L75, s) = exec (aligned n) (L75, ?s1)"
    by (simp only: aligned_Suc exec_append head)
  also have "\<dots> = (L75, ?s1\<lparr>count_ms := count_ms ?s1 + of_nat n\<rparr>)"
    using ih by (rule conjunct1)
  also have "\<dots> = (L75, s\<lparr>count_ms := count_ms s + of_nat (Suc n)\<rparr>)"
    by (simp add: ISR_TIMER1_COMPA_def add.assoc)
  finally have e: "exec (aligned (Suc n)) (L75, s) =
      (L75, s\<lparr>count_ms := count_ms s + of_nat (Suc n)\<rparr>)" .
  have "flips (aligned n) (L75, ?s1) = 0" using ih by (rule conjunct2)
  then have f: "flips (aligned (Suc n)) (L75, s) = 0"
    by (simp only: aligned_Suc flips_append head fh)
  show ?case using e f by (rule conjI)
qed

text \<open>
  The two cycles of 999 interrupts, from the top of the loop with the counter at 0 and
  the port all zero. When the last interrupt arrives at line 75 the pin goes high. When
  it arrives between the two tests, the counter reaches 999 at line 79, the rest of the
  pass resets it, and the pin has not moved: the configuration is the starting one.
\<close>

lemma lit_cycle_run:
  assumes "count_ms s = 0" and "PORTD s = 0" and "SREG_I s"
  shows "exec lit_cycle (L75, s) = (L75, s\<lparr>PORTD := push_bit PD6 1\<rparr>)"
    and "flips lit_cycle (L75, s) = 1"
proof -
  let ?a = "s\<lparr>count_ms := 998\<rparr>"
  have below: "unat (count_ms s) + 998 < 999" using assms(1) by simp
  have a: "exec (aligned 998) (L75, s) = (L75, ?a)" and fa: "flips (aligned 998) (L75, s) = 0"
    using aligned_below [OF below assms(3)] assms(1) by simp_all
  have z: "s\<lparr>count_ms := 0\<rparr> = s"
    using assms(1) by (metis mcu.surjective mcu.update_convs(1))
  have "exec [Irq, Main, Main, Main, Main] (L75, ?a) =
      (L75, s\<lparr>count_ms := 0, PORTD := push_bit PD6 1\<rparr>)"
    using assms(2,3) by (simp add: ISR_TIMER1_COMPA_def set_cond_def clear_cond_def)
  then have t: "exec [Irq, Main, Main, Main, Main] (L75, ?a) = (L75, s\<lparr>PORTD := push_bit PD6 1\<rparr>)"
    using z by simp
  have "pin (s\<lparr>PORTD := push_bit PD6 1\<rparr>)" by (rule pin_high) simp
  moreover have "\<not> pin s" using assms(2) by (rule pin_low)
  ultimately have ft: "flips [Irq, Main, Main, Main, Main] (L75, ?a) = 1"
    using assms(2,3)
    by (simp add: ISR_TIMER1_COMPA_def set_cond_def clear_cond_def pin_def del: push_bit_of_1)
  show "exec lit_cycle (L75, s) = (L75, s\<lparr>PORTD := push_bit PD6 1\<rparr>)"
    by (simp only: lit_cycle_def exec_append a t)
  show "flips lit_cycle (L75, s) = 1"
    by (simp only: lit_cycle_def flips_append a fa ft add_0)
qed

lemma dark_cycle_run:
  assumes "count_ms s = 0" and "PORTD s = 0" and "SREG_I s"
  shows "exec (aligned 998 @ [Main, Irq]) (L75, s) = (L79, s\<lparr>count_ms := 999\<rparr>)"
    and "flips (aligned 998 @ [Main, Irq]) (L75, s) = 0"
    and "exec [Main, Main, Main] (L79, s\<lparr>count_ms := 999\<rparr>) = (L75, s)"
    and "flips [Main, Main, Main] (L79, s\<lparr>count_ms := 999\<rparr>) = 0"
    and "exec dark_cycle (L75, s) = (L75, s)"
    and "flips dark_cycle (L75, s) = 0"
proof -
  let ?a = "s\<lparr>count_ms := 998\<rparr>" and ?b = "s\<lparr>count_ms := 999\<rparr>"
  have below: "unat (count_ms s) + 998 < 999" using assms(1) by simp
  have a: "exec (aligned 998) (L75, s) = (L75, ?a)" and fa: "flips (aligned 998) (L75, s) = 0"
    using aligned_below [OF below assms(3)] assms(1) by simp_all
  have m: "exec [Main, Irq] (L75, ?a) = (L79, ?b)"
    using assms(3) by (simp add: ISR_TIMER1_COMPA_def set_cond_def)
  have fm: "flips [Main, Irq] (L75, ?a) = 0"
    using assms(3) by (simp add: ISR_TIMER1_COMPA_def set_cond_def pin_def)
  have z: "s\<lparr>count_ms := 0\<rparr> = s"
    using assms(1) by (metis mcu.surjective mcu.update_convs(1))
  have p: "s\<lparr>PORTD := 0\<rparr> = s"
    using assms(2) by (metis mcu.surjective mcu.update_convs(5))
  have "exec [Main, Main, Main] (L79, ?b) = (L75, s\<lparr>count_ms := 0, PORTD := 0\<rparr>)"
    using assms(2) by (simp add: clear_cond_def)
  then show t: "exec [Main, Main, Main] (L79, ?b) = (L75, s)"
    using z p by simp
  show ft: "flips [Main, Main, Main] (L79, ?b) = 0"
    using assms(2) by (simp add: clear_cond_def pin_def)
  show h: "exec (aligned 998 @ [Main, Irq]) (L75, s) = (L79, ?b)"
    by (simp only: exec_append a m)
  show fh: "flips (aligned 998 @ [Main, Irq]) (L75, s) = 0"
    by (simp only: flips_append a fa fm add_0)
  have split: "dark_cycle = (aligned 998 @ [Main, Irq]) @ [Main, Main, Main]"
    by (simp add: dark_cycle_def)
  show "exec dark_cycle (L75, s) = (L75, s)"
    by (simp only: split exec_append a m t)
  show "flips dark_cycle (L75, s) = 0"
    by (simp only: split flips_append exec_append a m fa fm ft add_0)
qed

lemma dark_cycles:
  assumes "count_ms s = 0" and "PORTD s = 0" and "SREG_I s"
  shows "exec (concat (replicate n dark_cycle)) (L75, s) = (L75, s) \<and>
         flips (concat (replicate n dark_cycle)) (L75, s) = 0"
  by (induction n) (simp_all add: exec_append flips_append dark_cycle_run(5,6) [OF assms])

text \<open>The loop is entered with the counter at 0, the port all zero and interrupts enabled.\<close>

lemma loop_entry:
  "count_ms (main_prologue power_on) = 0"
  "PORTD (main_prologue power_on) = 0"
  "SREG_I (main_prologue power_on)"
  by (simp_all add: main_prologue_def sei_def Counter_init_def CPU_PRESCALE_def
      power_on_def Let_def)

text \<open>
  With another bit of the port set, the test at line 75 fails, so line 76 is never
  reached from the top of the loop, wherever the interrupts arrive: the bit stays set
  and the pin never goes from low to high.
\<close>

lemma other_bit_small_step:
  assumes "i \<noteq> PD6" and "bit (PORTD s) i" and "p \<noteq> L76"
  shows "bit (PORTD (snd (small_step e (p, s)))) i \<and>
         fst (small_step e (p, s)) \<noteq> L76 \<and>
         (pin (snd (small_step e (p, s))) \<longrightarrow> pin s)"
proof (cases e)
  case Irq
  then show ?thesis using assms by (simp add: ISR_TIMER1_COMPA_def pin_def)
next
  case Main
  have nz: "PORTD s \<noteq> 0" using assms(2) by auto
  have keep: "bit (PORTD s AND NOT (push_bit PD6 1)) i"
    using assms(2) by (simp only: and_not_mask_other_bits [OF assms(1)])
  have low: "\<not> bit (PORTD s AND NOT (push_bit PD6 1)) PD6"
    by (rule and_not_mask_bit)
  show ?thesis
    using assms nz keep low
    by (cases p) (simp_all add: Main set_cond_def pin_def del: push_bit_of_1)
qed

lemma other_bit_exec_from:
  "i \<noteq> PD6 \<Longrightarrow> bit (PORTD s) i \<Longrightarrow> p \<noteq> L76 \<Longrightarrow>
     bit (PORTD (snd (exec ms (p, s)))) i \<and>
     fst (exec ms (p, s)) \<noteq> L76 \<and>
     (pin (snd (exec ms (p, s))) \<longrightarrow> pin s)"
proof (induction ms arbitrary: p s)
  case Nil
  then show ?case by simp
next
  case (Cons e ms)
  obtain q t where st: "small_step e (p, s) = (q, t)" by (cases "small_step e (p, s)")
  have one: "bit (PORTD t) i \<and> q \<noteq> L76 \<and> (pin t \<longrightarrow> pin s)"
    using other_bit_small_step [OF Cons.prems, of e] by (simp add: st)
  then have "bit (PORTD (snd (exec ms (q, t)))) i \<and>
      fst (exec ms (q, t)) \<noteq> L76 \<and>
      (pin (snd (exec ms (q, t))) \<longrightarrow> pin t)"
    using Cons.IH [OF Cons.prems(1), of t q] by blast
  then show ?case using one by (simp add: st)
qed

lemma other_bit_exec:
  assumes "i \<noteq> PD6" and "bit (PORTD s) i"
  shows "bit (PORTD (snd (exec ms (L75, s)))) i"
    and "pin (snd (exec ms (L75, s))) \<Longrightarrow> pin s"
  using other_bit_exec_from [OF assms, of L75 ms] by simp_all

text \<open>
  A whole pass that starts with the counter at 999 toggles the pin exactly when the port
  reads zero or \<open>PD6\<close> is high.
\<close>

lemma pass_toggles_iff:
  assumes "count_ms s = 999"
  shows "pin (loop_body s) \<noteq> pin s \<longleftrightarrow> PORTD s = 0 \<or> pin s"
proof (cases "PORTD s = 0")
  case True
  then have "PORTD (loop_body s) = PORTD s OR push_bit PD6 1"
    using assms by (simp add: loop_body_cases)
  then have "pin (loop_body s)"
    using or_mask_bit [of "PORTD s"] by (simp add: pin_def del: push_bit_of_1)
  moreover have "\<not> pin s" using True by (rule pin_low)
  ultimately show ?thesis using True by simp
next
  case False
  then have "PORTD (loop_body s) = PORTD s AND NOT (push_bit PD6 1)"
    using assms by (simp add: loop_body_cases)
  then have "\<not> pin (loop_body s)"
    using and_not_mask_bit [of "PORTD s"] by (simp add: pin_def del: push_bit_of_1)
  then show ?thesis using False by simp
qed

section \<open>Executions, pass by pass\<close>

lemma run_append: "run (es @ fs) s = run fs (run es s)"
  by (induction es arbitrary: s) simp_all

section \<open>Bounds on the counter\<close>

lemma ISR_count_le:
  "unat (count_ms s) \<le> 998 \<Longrightarrow> unat (count_ms (ISR_TIMER1_COMPA s)) \<le> 999"
  by (simp add: ISR_TIMER1_COMPA_def unat_word_ariths)

lemma loop_body_count_le:
  assumes "unat (count_ms s) \<le> 999"
  shows "unat (count_ms (loop_body s)) \<le> 998"
proof -
  have "count_ms (loop_body s) \<noteq> 999" by (rule loop_body_count)
  then have "unat (count_ms (loop_body s)) \<noteq> 999"
    by (simp add: word_unat_eq_iff)
  moreover have "unat (count_ms (loop_body s)) \<le> 999"
    using assms by (simp add: loop_body_cases)
  ultimately show ?thesis by simp
qed

lemma count_bounded_aux:
  "(unat (count_ms s) \<le> 998 \<longrightarrow> no_missed es \<longrightarrow> unat (count_ms (run es s)) \<le> 999) \<and>
   (unat (count_ms s) \<le> 999 \<longrightarrow> no_missed (Tick # es) \<longrightarrow> unat (count_ms (run es s)) \<le> 999)"
proof (induction es arbitrary: s)
  case Nil
  then show ?case by simp
next
  case (Cons e es)
  show ?case
  proof (cases e)
    case Tick
    have "unat (count_ms (run (Tick # es) s)) \<le> 999"
      if "unat (count_ms s) \<le> 998" "no_missed (Tick # es)"
      using that Cons.IH [of "ISR_TIMER1_COMPA s"] ISR_count_le [of s] by simp
    then show ?thesis using Tick by simp
  next
    case Loop
    have "unat (count_ms (run (Loop # es) s)) \<le> 999"
      if "unat (count_ms s) \<le> 999" "no_missed es"
      using that Cons.IH [of "loop_body s"] loop_body_count_le [of s] by simp
    then show ?thesis using Loop by simp
  qed
qed

lemma no_missed_Cons: "no_missed (e # es) \<Longrightarrow> no_missed es"
  by (cases e; cases es) (auto split: event.splits elim: no_missed.elims)

lemma no_missed_take: "no_missed es \<Longrightarrow> no_missed (take n es)"
proof (induction es arbitrary: n)
  case Nil
  then show ?case by simp
next
  case (Cons e es)
  show ?case
  proof (cases n)
    case 0
    then show ?thesis by simp
  next
    case (Suc m)
    have tl: "no_missed (take m es)"
      using Cons.IH no_missed_Cons [OF Cons.prems] by blast
    show ?thesis
    proof (cases e)
      case Loop
      then show ?thesis using tl Suc by simp
    next
      case Tick
      show ?thesis
      proof (cases "take m es")
        case Nil
        then have "take n (e # es) = [Tick]" using Tick Suc by simp
        then show ?thesis by simp
      next
        case front: (Cons f fs)
        then have ne: "es \<noteq> []" by auto
        have "m \<noteq> 0" using front by (cases m) auto
        then have "f = hd es" using front ne by (cases es; cases m) auto
        moreover have "hd es = Loop"
          using Cons.prems Tick ne by (cases es; cases "hd es") auto
        ultimately have "take n (e # es) = Tick # Loop # fs"
          using Tick Suc front by simp
        moreover have "no_missed (Loop # fs)"
          using tl front \<open>f = hd es\<close> \<open>hd es = Loop\<close> by simp
        ultimately show ?thesis by simp
      qed
    qed
  qed
qed

section \<open>The rest of the port\<close>

lemma others_run:
  "PORTD (run es s) AND NOT (push_bit PD6 1) = PORTD s AND NOT (push_bit PD6 1)"
proof (induction es arbitrary: s)
  case Nil
  show ?case by simp
next
  case (Cons e es)
  show ?case using Cons.IH [of "step e s"] others_step [of e s] by (simp del: push_bit_of_1)
qed

lemma pin_run_blocked:
  "PORTD s AND NOT (push_bit PD6 1) \<noteq> 0 \<Longrightarrow> pin (run es s) \<Longrightarrow> pin s"
proof (induction es arbitrary: s)
  case Nil
  then show ?case by simp
next
  case (Cons e es)
  have "PORTD (step e s) AND NOT (push_bit PD6 1) \<noteq> 0"
    using Cons.prems(1) others_step [of e s] by (simp del: push_bit_of_1)
  moreover have "pin (run es (step e s))" using Cons.prems(2) by simp
  ultimately have "pin (step e s)" by (rule Cons.IH)
  with Cons.prems(1) show ?case by (rule pin_step_blocked)
qed

text \<open>
  The handler can also run between the two \<open>if\<close> statements of one pass. Then the first
  test has already failed when the counter reaches 999, the second one fires, and the pin
  of a dark LED stays low for that cycle.
\<close>

lemma tick_between_ifs:
  assumes "count_ms s = 998" and "PORTD s = 0"
  shows "loop_if2 (ISR_TIMER1_COMPA (loop_if1 s)) = s\<lparr>count_ms := 0\<rparr>"
proof -
  have "s\<lparr>PORTD := 0\<rparr> = s"
    using assms(2) by (metis mcu.surjective mcu.update_convs(5))
  then show ?thesis
    using assms by (simp add: loop_if1_def loop_if2_def set_cond_def clear_cond_def
        ISR_TIMER1_COMPA_def)
qed

section \<open>The interrupt handler\<close>

text \<open>
  C8. For every state, one run of the compare-match handler adds exactly one to the tick
  counter, wrapping at the width of \<open>unsigned int\<close> (16 bits), and changes nothing else:
  the output port and its pin, the direction register and every timer and clock register
  keep their values.
\<close>

theorem ISR_increments_count_only:
  "ISR_TIMER1_COMPA s = s\<lparr>count_ms := count_ms s + 1\<rparr> \<and>
   unat (count_ms (ISR_TIMER1_COMPA s)) = (unat (count_ms s) + 1) mod 2 ^ 16 \<and>
   PORTD (ISR_TIMER1_COMPA s) = PORTD s \<and>
   pin (ISR_TIMER1_COMPA s) = pin s \<and>
   DDRD (ISR_TIMER1_COMPA s) = DDRD s \<and>
   CLKPR (ISR_TIMER1_COMPA s) = CLKPR s \<and>
   SREG_I (ISR_TIMER1_COMPA s) = SREG_I s \<and>
   TCCR1A (ISR_TIMER1_COMPA s) = TCCR1A s \<and>
   TCCR1B (ISR_TIMER1_COMPA s) = TCCR1B s \<and>
   TIMSK1 (ISR_TIMER1_COMPA s) = TIMSK1 s \<and>
   OCR1A (ISR_TIMER1_COMPA s) = OCR1A s \<and>
   TCNT1 (ISR_TIMER1_COMPA s) = TCNT1 s"
  by (simp add: ISR_TIMER1_COMPA_def pin_def unat_word_ariths)

section \<open>The timer configuration\<close>

text \<open>
  C3. \<open>Counter_init\<close> leaves \<open>TCCR1A\<close> as it is, sets exactly the bits \<open>CS11\<close> and \<open>WGM12\<close>
  in \<open>TCCR1B\<close> and exactly the bit \<open>OCIE1A\<close> in \<open>TIMSK1\<close>, stores 1000 in \<open>OCR1A\<close> and 0
  in \<open>TCNT1\<close>, and touches nothing else. Run on timer registers that read 0, as \<open>main\<close>
  runs it, the result is waveform mode 0100 (CTC on \<open>OCR1A\<close>), clock select 010 (CPU
  clock divided by 8), and an interrupt mask in which only \<open>OCIE1A\<close> is set.
\<close>

theorem Counter_init_configuration:
  "TCCR1A (Counter_init s) = TCCR1A s \<and>
   TCCR1B (Counter_init s) = TCCR1B s OR (push_bit CS11 1 OR push_bit WGM12 1) \<and>
   TIMSK1 (Counter_init s) = TIMSK1 s OR push_bit OCIE1A 1 \<and>
   OCR1A (Counter_init s) = 1000 \<and>
   TCNT1 (Counter_init s) = 0 \<and>
   count_ms (Counter_init s) = count_ms s \<and>
   CLKPR (Counter_init s) = CLKPR s \<and>
   SREG_I (Counter_init s) = SREG_I s \<and>
   DDRD (Counter_init s) = DDRD s \<and>
   PORTD (Counter_init s) = PORTD s \<and>
   (TCCR1A s = 0 \<and> TCCR1B s = 0 \<and> TIMSK1 s = 0 \<longrightarrow>
      WGM1 (Counter_init s) = (False, True, False, False) \<and>
      waveform_mode (WGM1 (Counter_init s)) = CTC_OCR1A \<and>
      CS1 (Counter_init s) = (False, True, False) \<and>
      clock_select (CS1 (Counter_init s)) = CPU_div 8 \<and>
      TCCR1B (Counter_init s) = 0x0A \<and>
      TIMSK1 (Counter_init s) = push_bit OCIE1A 1)"
  by (simp add: Counter_init_def Let_def WGM1_def CS1_def CS10_def CS11_def CS12_def
      WGM10_def WGM11_def WGM12_def WGM13_def OCIE1A_def)

theorem Counter_init_configuration_witness:
  "waveform_mode (WGM1 (Counter_init (CPU_PRESCALE CPU_8MHz power_on))) = CTC_OCR1A \<and>
   clock_select (CS1 (Counter_init (CPU_PRESCALE CPU_8MHz power_on))) = CPU_div 8 \<and>
   TIMSK1 (Counter_init (CPU_PRESCALE CPU_8MHz power_on)) = push_bit OCIE1A 1 \<and>
   OCR1A (Counter_init (CPU_PRESCALE CPU_8MHz power_on)) = 1000 \<and>
   TCNT1 (Counter_init (CPU_PRESCALE CPU_8MHz power_on)) = 0"
proof -
  have "TCCR1A (CPU_PRESCALE CPU_8MHz power_on) = 0 \<and>
        TCCR1B (CPU_PRESCALE CPU_8MHz power_on) = 0 \<and>
        TIMSK1 (CPU_PRESCALE CPU_8MHz power_on) = 0"
    by (simp add: CPU_PRESCALE_def power_on_def)
  then show ?thesis
    using Counter_init_configuration [of "CPU_PRESCALE CPU_8MHz power_on"] by blast
qed

text \<open>
  C2. The claim is that the compare value 1000 gives one compare match per 1000 ticks of
  the 1 MHz timer clock, a rate of exactly 1 kHz. By the source's own rule for the compare
  value, one match per 1000 ticks needs \<open>OCR1A = 1000 - 1\<close>. \<open>Counter_init\<close> stores 1000,
  which is one match per 1001 ticks, and 1001 does not divide the 1000000 ticks of a
  second.
\<close>

theorem Counter_init_compare_value:
  "unat (OCR1A (Counter_init s)) = 1000 \<and>
   OCR1A_for (F_CPU div 8) 1000 = 999 \<and>
   ticks_per_match (unat (OCR1A (Counter_init s))) = 1001 \<and>
   (F_CPU div 8) mod ticks_per_match (unat (OCR1A (Counter_init s))) = 1"
  by (simp add: Counter_init_def Let_def OCR1A_for_def F_CPU_def ticks_per_match_def)

section \<open>One pass of the loop\<close>

text \<open>
  C5. One pass of the loop, written in the source as two \<open>if\<close> statements in sequence, is
  the two-branch decision of the specification: counter 999 and the whole of \<open>PORTD\<close>
  zero sets \<open>PD6\<close> and resets the counter; otherwise counter 999 clears \<open>PD6\<close> and resets
  the counter; a counter other than 999 changes nothing.
\<close>

theorem loop_body_two_branch:
  "loop_body s = blink_spec s"
  by (simp add: loop_body_cases blink_spec_def)

text \<open>
  C9. A pass of the loop changes at most bit \<open>PD6\<close> of \<open>PORTD\<close> and the tick counter:
  every other bit of \<open>PORTD\<close>, the direction register and the timer and clock registers
  are the same after the pass as before it, from every state.
\<close>

theorem loop_body_frame:
  "(\<forall>i. i \<noteq> PD6 \<longrightarrow> bit (PORTD (loop_body s)) i = bit (PORTD s) i) \<and>
   PORTD (loop_body s) AND NOT (push_bit PD6 1) = PORTD s AND NOT (push_bit PD6 1) \<and>
   DDRD (loop_body s) = DDRD s \<and>
   TCCR1A (loop_body s) = TCCR1A s \<and>
   TCCR1B (loop_body s) = TCCR1B s \<and>
   TIMSK1 (loop_body s) = TIMSK1 s \<and>
   OCR1A (loop_body s) = OCR1A s \<and>
   TCNT1 (loop_body s) = TCNT1 s \<and>
   CLKPR (loop_body s) = CLKPR s \<and>
   SREG_I (loop_body s) = SREG_I s"
proof -
  have port: "PORTD (loop_body s) = PORTD s OR push_bit PD6 1 \<or>
      PORTD (loop_body s) = PORTD s AND NOT (push_bit PD6 1) \<or>
      PORTD (loop_body s) = PORTD s"
    by (simp add: loop_body_cases)
  have bits: "bit (PORTD (loop_body s)) i = bit (PORTD s) i" if "i \<noteq> PD6" for i
    using port or_mask_other_bits [OF that, of "PORTD s"]
      and_not_mask_other_bits [OF that, of "PORTD s"]
    by (elim disjE) (simp_all only:)
  have others: "PORTD (loop_body s) AND NOT (push_bit PD6 1) = PORTD s AND NOT (push_bit PD6 1)"
    using others_step [of Loop s] by (simp del: push_bit_of_1)
  have rest: "DDRD (loop_body s) = DDRD s \<and>
     TCCR1A (loop_body s) = TCCR1A s \<and>
     TCCR1B (loop_body s) = TCCR1B s \<and>
     TIMSK1 (loop_body s) = TIMSK1 s \<and>
     OCR1A (loop_body s) = OCR1A s \<and>
     TCNT1 (loop_body s) = TCNT1 s \<and>
     CLKPR (loop_body s) = CLKPR s \<and>
     SREG_I (loop_body s) = SREG_I s"
    by (simp add: loop_body_cases)
  show ?thesis using bits others rest by blast
qed

theorem loop_body_frame_witness:
  "bit (PORTD (loop_body ((main_prologue power_on)\<lparr>count_ms := 999, PORTD := 0x81\<rparr>))) 7 \<and>
   bit (PORTD (loop_body ((main_prologue power_on)\<lparr>count_ms := 999, PORTD := 0x81\<rparr>))) 0 \<and>
   DDRD (loop_body ((main_prologue power_on)\<lparr>count_ms := 999, PORTD := 0x81\<rparr>)) = 0x40"
proof -
  let ?s = "(main_prologue power_on)\<lparr>count_ms := 999, PORTD := 0x81\<rparr>"
  have "(7::nat) \<noteq> PD6" and "(0::nat) \<noteq> PD6" by (simp_all add: PD6_def)
  moreover have "bit (PORTD ?s) 7" and "bit (PORTD ?s) 0" by simp_all
  moreover have "DDRD ?s = 0x40"
    by (simp add: main_prologue_def sei_def Counter_init_def CPU_PRESCALE_def power_on_def
        Let_def PD6_def)
  ultimately show ?thesis
    using loop_body_frame [of ?s] by metis
qed

text \<open>
  C10. From every state in which some bit of \<open>PORTD\<close> other than \<open>PD6\<close> is set, and along
  every execution from it: that bit stays set, the condition of the first \<open>if\<close> is false,
  a pass of the loop never takes the pin from low to high, and a pin that is low stays
  low.
\<close>

theorem other_bit_blocks_assert:
  assumes "i \<noteq> PD6" and "bit (PORTD s) i"
  shows "bit (PORTD (run es s)) i \<and>
         \<not> set_cond (run es s) \<and>
         (pin (loop_body (run es s)) \<longrightarrow> pin (run es s)) \<and>
         (\<not> pin s \<longrightarrow> \<not> pin (run es s))"
proof -
  have nz: "p AND NOT (push_bit PD6 1) \<noteq> 0" if "bit p i" for p :: "8 word"
  proof
    assume "p AND NOT (push_bit PD6 1) = 0"
    then have "bit (p AND NOT (push_bit PD6 1)) i = bit (0 :: 8 word) i" by (simp only:)
    then show False
      using that by (simp only: and_not_mask_other_bits [OF assms(1)]) simp
  qed
  have "bit (PORTD (run es s) AND NOT (push_bit PD6 1)) i"
    using assms(2) by (simp only: others_run and_not_mask_other_bits [OF assms(1)])
  then have still: "bit (PORTD (run es s)) i"
    by (simp only: and_not_mask_other_bits [OF assms(1)])
  then have nz_run: "PORTD (run es s) AND NOT (push_bit PD6 1) \<noteq> 0" by (rule nz)
  have "PORTD (run es s) \<noteq> 0" using still by auto
  then have no_set: "\<not> set_cond (run es s)" by (simp add: set_cond_def)
  have no_rise: "pin (run es s)" if "pin (loop_body (run es s))"
    using nz_run pin_step_blocked [of "run es s" Loop] that by simp
  have stays: "\<not> pin (run es s)" if "\<not> pin s"
    using that pin_run_blocked [OF nz [OF assms(2)], of es] by blast
  show ?thesis using still no_set no_rise stays by blast
qed

theorem other_bit_blocks_assert_witness:
  "bit (PORTD (run [Tick, Loop, Loop] ((main_prologue power_on)\<lparr>count_ms := 998, PORTD := 0x01\<rparr>))) 0 \<and>
   \<not> set_cond (run [Tick, Loop, Loop] ((main_prologue power_on)\<lparr>count_ms := 998, PORTD := 0x01\<rparr>)) \<and>
   \<not> pin (run [Tick, Loop, Loop] ((main_prologue power_on)\<lparr>count_ms := 998, PORTD := 0x01\<rparr>))"
proof -
  let ?s = "(main_prologue power_on)\<lparr>count_ms := 998, PORTD := 0x01\<rparr>"
  have "(0::nat) \<noteq> PD6" by (simp add: PD6_def)
  moreover have "bit (PORTD ?s) 0" by simp
  moreover have "\<not> pin ?s" by (simp add: pin_def PD6_def)
  ultimately show ?thesis
    using other_bit_blocks_assert [of 0 ?s "[Tick, Loop, Loop]"] by blast
qed

section \<open>Executions of the whole system\<close>

text \<open>
  C7. Start with the tick counter at 0. Let every step be either a run of the handler or
  a pass of the loop, with a pass of the loop between any two runs of the handler. Then
  in every state the execution passes through the counter is at most 999, so it is never
  1000 or more.
\<close>

theorem count_ms_bounded:
  assumes "count_ms s = 0" and "no_missed es"
  shows "unat (count_ms (run (take n es) s)) \<le> 999 \<and>
         unat (count_ms (run (take n es) s)) < 1000"
proof -
  have "unat (count_ms s) \<le> 998" using assms(1) by simp
  moreover have "no_missed (take n es)" using assms(2) by (rule no_missed_take)
  ultimately have "unat (count_ms (run (take n es) s)) \<le> 999"
    using count_bounded_aux [of s "take n es"] by blast
  then show ?thesis by simp
qed

theorem count_ms_bounded_witness:
  "unat (count_ms (run (take 3 [Tick, Loop, Tick, Loop]) (main_prologue power_on))) \<le> 999 \<and>
   unat (count_ms (run (take 3 [Tick, Loop, Tick, Loop]) (main_prologue power_on))) < 1000"
proof -
  have "count_ms (main_prologue power_on) = 0"
    by (simp add: main_prologue_def sei_def Counter_init_def CPU_PRESCALE_def power_on_def
        Let_def)
  moreover have "no_missed [Tick, Loop, Tick, Loop]" by simp
  ultimately show ?thesis
    by (rule count_ms_bounded)
qed

section \<open>The race between the handler and the loop\<close>

text \<open>
  C1. The claim is that from the counter at 0 and the port all zero the pin is high after
  the first cycle in which the counter reaches 999, low after the next, and so on. The
  loop tests the counter twice in a pass, with interrupts enabled. In \<open>dark_cycle\<close> the
  999th interrupt arrives between the two tests: the counter reaches 999 at line 79, the
  cycle ends at line 75 with the counter at 0, and the pin is still low. The
  configuration is the one in which the loop was entered, so the pin is low after any
  number of such cycles.
\<close>

theorem blink_stays_low:
  "irqs dark_cycle = 999 \<and>
   exec (aligned 998 @ [Main, Irq]) (L75, main_prologue power_on)
     = (L79, (main_prologue power_on)\<lparr>count_ms := 999\<rparr>) \<and>
   exec dark_cycle (L75, main_prologue power_on) = (L75, main_prologue power_on) \<and>
   \<not> pin (snd (exec dark_cycle (L75, main_prologue power_on))) \<and>
   (\<forall>n. \<not> pin (snd (exec (concat (replicate n dark_cycle)) (L75, main_prologue power_on))))"
proof -
  have low: "\<not> pin (main_prologue power_on)"
    using loop_entry(2) by (rule pin_low)
  have "exec (concat (replicate n dark_cycle)) (L75, main_prologue power_on)
      = (L75, main_prologue power_on)" for n
    using dark_cycles [OF loop_entry, of n] by (rule conjunct1)
  then have "\<forall>n. \<not> pin (snd (exec (concat (replicate n dark_cycle)) (L75, main_prologue power_on)))"
    using low by simp
  then show ?thesis
    using irqs_dark_cycle dark_cycle_run(1,5) [OF loop_entry] low by simp
qed

text \<open>
  C4. The claim is that 999 ticks interleaved with loop checks give exactly one toggle and
  leave the counter at 0, and that 1998 give exactly two and the pin back at its original
  level. From the state in which the loop is entered, the 999 interrupts of \<open>dark_cycle\<close>
  give no toggle and leave the counter at 0. The 1998 interrupts of \<open>dark_cycle\<close> followed
  by \<open>lit_cycle\<close> give one toggle and leave the pin high, not low as it began.
\<close>

theorem ticks_without_toggle:
  "irqs dark_cycle = 999 \<and>
   flips dark_cycle (L75, main_prologue power_on) = 0 \<and>
   count_ms (snd (exec dark_cycle (L75, main_prologue power_on))) = 0 \<and>
   irqs (dark_cycle @ lit_cycle) = 1998 \<and>
   flips (dark_cycle @ lit_cycle) (L75, main_prologue power_on) = 1 \<and>
   pin (snd (exec (dark_cycle @ lit_cycle) (L75, main_prologue power_on))) \<and>
   \<not> pin (main_prologue power_on) \<and>
   count_ms (snd (exec (dark_cycle @ lit_cycle) (L75, main_prologue power_on))) = 0"
proof -
  let ?s = "main_prologue power_on"
  have d: "exec dark_cycle (L75, ?s) = (L75, ?s)" and fd: "flips dark_cycle (L75, ?s) = 0"
    by (rule dark_cycle_run(5,6) [OF loop_entry])+
  have l: "exec lit_cycle (L75, ?s) = (L75, ?s\<lparr>PORTD := push_bit PD6 1\<rparr>)"
    and fl: "flips lit_cycle (L75, ?s) = 1"
    by (rule lit_cycle_run [OF loop_entry])+
  have e2: "exec (dark_cycle @ lit_cycle) (L75, ?s) = (L75, ?s\<lparr>PORTD := push_bit PD6 1\<rparr>)"
    by (simp only: exec_append d l)
  have f2: "flips (dark_cycle @ lit_cycle) (L75, ?s) = 1"
    by (simp only: flips_append d fd fl add_0)
  have high: "pin (?s\<lparr>PORTD := push_bit PD6 1\<rparr>)" by (rule pin_high) simp
  have low: "\<not> pin ?s" using loop_entry(2) by (rule pin_low)
  have n2: "irqs (dark_cycle @ lit_cycle) = 1998"
    by (simp add: irqs_append irqs_dark_cycle irqs_lit_cycle)
  show ?thesis
    using irqs_dark_cycle fd d n2 f2 high low loop_entry(1)
    by (simp add: e2 del: push_bit_of_1)
qed

text \<open>
  C6. The claim is that whenever the counter reaches 999 the next loop check toggles the
  pin before the counter is reset. In the execution that delivers 998 aligned interrupts
  and the 999th after the test at line 75, the counter is 999 at line 79 with the pin
  low. The rest of that pass, lines 79, 80 and 81, resets the counter and does not
  change the pin, and the pass after it finds the counter at 0 and changes nothing.
\<close>

theorem reset_without_toggle:
  "exec (aligned 998 @ [Main, Irq]) (L75, main_prologue power_on)
     = (L79, (main_prologue power_on)\<lparr>count_ms := 999\<rparr>) \<and>
   count_ms ((main_prologue power_on)\<lparr>count_ms := 999\<rparr>) = 999 \<and>
   \<not> pin ((main_prologue power_on)\<lparr>count_ms := 999\<rparr>) \<and>
   exec [Main, Main, Main] (L79, (main_prologue power_on)\<lparr>count_ms := 999\<rparr>)
     = (L75, main_prologue power_on) \<and>
   flips [Main, Main, Main] (L79, (main_prologue power_on)\<lparr>count_ms := 999\<rparr>) = 0 \<and>
   count_ms (main_prologue power_on) = 0 \<and>
   \<not> pin (main_prologue power_on) \<and>
   loop_body (main_prologue power_on) = main_prologue power_on"
proof -
  let ?s = "main_prologue power_on"
  have low: "\<not> pin ?s" using loop_entry(2) by (rule pin_low)
  then have low9: "\<not> pin (?s\<lparr>count_ms := 999\<rparr>)" by (simp add: pin_def)
  have idle: "loop_body ?s = ?s"
    using loop_entry(1) by (intro loop_body_idle) simp
  show ?thesis
    using dark_cycle_run(1,3,4) [OF loop_entry] low low9 idle loop_entry(1) by simp
qed

end
